theory Spec2Isabelle
  imports Main
begin

section \<open>Strings as the source uses them\<close>

text \<open>
  The auto-render addon (\<^verbatim>\<open>src/addons/auto-render.js\<close>) works on JavaScript strings with
  \<^verbatim>\<open>slice\<close>, \<^verbatim>\<open>indexOf\<close> and indexing. A string is modelled as a \<^typ>\<open>char list\<close>; offsets
  are natural numbers, and the sentinel \<^verbatim>\<open>-1\<close> of \<^verbatim>\<open>indexOf\<close> and \<^verbatim>\<open>findEndOfMath\<close> is kept as
  the integer \<open>-1\<close>.
\<close>

abbreviation backslash :: char where
  "backslash \<equiv> CHR 0x5C"

text \<open>\<^verbatim>\<open>text.slice(a, b)\<close> for offsets \<open>0 \<le> a, b\<close>: the characters from \<open>a\<close> up to, not
  including, \<open>min b (length text)\<close>; empty when \<open>b \<le> a\<close>.\<close>

definition slice :: "string \<Rightarrow> nat \<Rightarrow> nat \<Rightarrow> string" where
  "slice text a b = take (b - a) (drop a text)"

text \<open>\<^verbatim>\<open>text.slice(a)\<close>: everything from offset \<open>a\<close> on.\<close>

definition sliceFrom :: "string \<Rightarrow> nat \<Rightarrow> string" where
  "sliceFrom text a = drop a text"

text \<open>\<^verbatim>\<open>text.indexOf(searchString, position)\<close> of the language: the least offset
  \<open>k \<ge> min position (length text)\<close> at which \<open>searchString\<close> occurs in \<open>text\<close>, or \<open>-1\<close>.
  The empty search string is found at the (clamped) start position.\<close>

function indexOfLoop :: "string \<Rightarrow> string \<Rightarrow> nat \<Rightarrow> int" where
  "indexOfLoop text searchString k =
     (if length text < k + length searchString then -1
      else if slice text k (k + length searchString) = searchString then int k
      else indexOfLoop text searchString (k + 1))"
  by pat_completeness auto
termination
  by (relation "measure (\<lambda>(text, searchString, k). Suc (length text) - k)") auto

declare indexOfLoop.simps [simp del]

definition indexOf :: "string \<Rightarrow> string \<Rightarrow> nat \<Rightarrow> int" where
  "indexOf text searchString position =
     indexOfLoop text searchString (min position (length text))"

section \<open>findEndOfMath\<close>

text \<open>The \<^verbatim>\<open>while (index < text.length)\<close> loop of \<^verbatim>\<open>findEndOfMath\<close>, with the two loop
  variables \<open>index\<close> and \<open>braceLevel\<close> as arguments. The test for the delimiter comes first,
  as in the source; a backslash advances the index twice.\<close>

function findEndOfMathLoop :: "string \<Rightarrow> string \<Rightarrow> nat \<Rightarrow> int \<Rightarrow> int" where
  "findEndOfMathLoop delimiter text index braceLevel =
     (if index < length text then
        (if braceLevel \<le> 0 \<and> slice text index (index + length delimiter) = delimiter
           then int index
         else if text ! index = backslash
           then findEndOfMathLoop delimiter text (index + 1 + 1) braceLevel
         else if text ! index = CHR ''{''
           then findEndOfMathLoop delimiter text (index + 1) (braceLevel + 1)
         else if text ! index = CHR ''}''
           then findEndOfMathLoop delimiter text (index + 1) (braceLevel - 1)
         else findEndOfMathLoop delimiter text (index + 1) braceLevel)
      else -1)"
  by pat_completeness auto
termination
  by (relation "measure (\<lambda>(delimiter, text, index, braceLevel). length text - index)") auto

declare findEndOfMathLoop.simps [simp del]

definition findEndOfMath :: "string \<Rightarrow> string \<Rightarrow> nat \<Rightarrow> int" where
  "findEndOfMath delimiter text startIndex = findEndOfMathLoop delimiter text startIndex 0"

section \<open>Segments and splitAtDelimiters\<close>

datatype mathstyle = textstyle | displaystyle

text \<open>The objects \<^verbatim>\<open>{type: 'text', data}\<close> and
  \<^verbatim>\<open>{type: 'math', data, rawData, mathstyle}\<close>.\<close>

datatype segment =
    TextSeg (data: string)
  | MathSeg (data: string) (rawData: string) (style: mathstyle)

text \<open>The \<^verbatim>\<open>while (!done)\<close> loop of \<^verbatim>\<open>splitAtDelimiters\<close> for one text. The loop has no
  bound of its own, so it is a partial function: \<open>None\<close> is a loop that never leaves. On
  \<^verbatim>\<open>break\<close> it returns the loop variables \<open>currIndex\<close> and \<open>finalData\<close>.\<close>

partial_function (option) splitLoop ::
  "string \<Rightarrow> string \<Rightarrow> string \<Rightarrow> mathstyle \<Rightarrow> bool \<Rightarrow> nat \<Rightarrow> segment list
     \<Rightarrow> (nat \<times> segment list) option" where
  "splitLoop text leftDelim rightDelim mstyle lookingForLeft currIndex finalData =
     (if lookingForLeft then
        (let nextIndex = indexOf text leftDelim currIndex in
         if nextIndex = -1 then Some (currIndex, finalData)
         else splitLoop text leftDelim rightDelim mstyle (\<not> lookingForLeft) (nat nextIndex)
                (finalData @ [TextSeg (slice text currIndex (nat nextIndex))]))
      else
        (let nextIndex = findEndOfMath rightDelim text (currIndex + length leftDelim) in
         if nextIndex = -1 then Some (currIndex, finalData)
         else splitLoop text leftDelim rightDelim mstyle (\<not> lookingForLeft)
                (nat nextIndex + length rightDelim)
                (finalData @
                   [MathSeg (slice text (currIndex + length leftDelim) (nat nextIndex))
                            (slice text currIndex (nat nextIndex + length rightDelim))
                            mstyle])))"

text \<open>The body of the \<^verbatim>\<open>for\<close> loop for one text segment: the first \<^verbatim>\<open>indexOf\<close>, the
  \<^verbatim>\<open>while\<close> loop, and the final push of the rest of the text.\<close>

definition splitText ::
  "string \<Rightarrow> string \<Rightarrow> string \<Rightarrow> mathstyle \<Rightarrow> segment list \<Rightarrow> segment list option" where
  "splitText text leftDelim rightDelim mstyle finalData =
     (let nextIndex = indexOf text leftDelim 0 in
      case (if nextIndex \<noteq> -1
            then splitLoop text leftDelim rightDelim mstyle False (nat nextIndex)
                   (finalData @ [TextSeg (slice text 0 (nat nextIndex))])
            else splitLoop text leftDelim rightDelim mstyle True 0 finalData)
      of None \<Rightarrow> None
       | Some (currIndex, finalData') \<Rightarrow> Some (finalData' @ [TextSeg (sliceFrom text currIndex)]))"

text \<open>The \<^verbatim>\<open>for\<close> loop over \<open>startData\<close>, with \<open>finalData\<close> as accumulator.\<close>

fun splitAtDelimitersLoop ::
  "segment list \<Rightarrow> string \<Rightarrow> string \<Rightarrow> mathstyle \<Rightarrow> segment list \<Rightarrow> segment list option" where
  "splitAtDelimitersLoop [] leftDelim rightDelim mstyle finalData = Some finalData"
| "splitAtDelimitersLoop (TextSeg text # startData) leftDelim rightDelim mstyle finalData =
     (case splitText text leftDelim rightDelim mstyle finalData of
        None \<Rightarrow> None
      | Some finalData' \<Rightarrow> splitAtDelimitersLoop startData leftDelim rightDelim mstyle finalData')"
| "splitAtDelimitersLoop (MathSeg d r s # startData) leftDelim rightDelim mstyle finalData =
     splitAtDelimitersLoop startData leftDelim rightDelim mstyle (finalData @ [MathSeg d r s])"

definition splitAtDelimiters ::
  "segment list \<Rightarrow> string \<Rightarrow> string \<Rightarrow> mathstyle \<Rightarrow> segment list option" where
  "splitAtDelimiters startData leftDelim rightDelim mstyle =
     splitAtDelimitersLoop startData leftDelim rightDelim mstyle []"

section \<open>splitWithDelimiters\<close>

text \<open>\<^verbatim>\<open>options.TeX.delimiters\<close>: two arrays of two-element arrays \<^verbatim>\<open>[left, right]\<close>.\<close>

record delimiters =
  inline :: "(string \<times> string) list"
  display :: "(string \<times> string) list"

text \<open>One of the two \<^verbatim>\<open>for\<close> loops of \<^verbatim>\<open>splitWithDelimiters\<close>.\<close>

fun splitEach ::
  "segment list \<Rightarrow> (string \<times> string) list \<Rightarrow> mathstyle \<Rightarrow> segment list option" where
  "splitEach dat [] mstyle = Some dat"
| "splitEach dat (delimiter # rest) mstyle =
     (case splitAtDelimiters dat (fst delimiter) (snd delimiter) mstyle of
        None \<Rightarrow> None
      | Some dat' \<Rightarrow> splitEach dat' rest mstyle)"

definition splitWithDelimiters :: "string \<Rightarrow> delimiters \<Rightarrow> segment list option" where
  "splitWithDelimiters text delims =
     (case splitEach [TextSeg text] (inline delims) textstyle of
        None \<Rightarrow> None
      | Some dat \<Rightarrow> splitEach dat (display delims) displaystyle)"

section \<open>The content tree and the options\<close>

text \<open>A DOM node as \<^verbatim>\<open>scanElement\<close> sees it: a text node (\<^verbatim>\<open>nodeType === 3\<close>) with its
  \<^verbatim>\<open>textContent\<close>, an element (\<^verbatim>\<open>nodeType === 1\<close>) with \<^verbatim>\<open>nodeName\<close>, \<^verbatim>\<open>className\<close> and
  \<^verbatim>\<open>childNodes\<close>, or a node of any other type (a comment, say), which has no children
  that matter here.\<close>

datatype node =
    TextNode (textContent: string)
  | ElementNode (nodeName: string) (className: string) (childNodes: "node list")
  | OtherNode (nodeType: nat)

text \<open>\<^verbatim>\<open>options.TeX\<close> and the fields of \<^verbatim>\<open>defaultOptions\<close>.\<close>

record tex =
  disabled :: bool
  processEnvironments :: bool
  delimiters :: delimiters

record settings =
  skipTags :: "string list"
  ignoreClass :: string
  processClass :: string
  TeX :: tex

text \<open>The options object after \<^verbatim>\<open>renderMathInElement\<close> has added the two compiled patterns;
  a compiled pattern is used only through \<^verbatim>\<open>test\<close>, so it is a predicate on strings.\<close>

record options = settings +
  ignoreClassPattern :: "string \<Rightarrow> bool"
  processClassPattern :: "string \<Rightarrow> bool"

definition defaultOptions :: settings where
  "defaultOptions =
     \<lparr> skipTags = [''script'', ''noscript'', ''style'', ''textarea'', ''pre'', ''code'',
                   ''annotation'', ''annotation-xml''],
       ignoreClass = ''tex2jax_ignore'',
       processClass = ''tex2jax_process'',
       TeX = \<lparr> disabled = False,
               processEnvironments = True,
               delimiters = \<lparr> inline = [(backslash # ''('', backslash # '')'')],
                              display = [(''$$'', ''$$''),
                                         (backslash # ''['', backslash # '']'')] \<rparr> \<rparr> \<rparr>"

text \<open>\<^verbatim>\<open>String.prototype.toLowerCase\<close> on the ASCII letters, which is what tag names are
  made of.\<close>

definition lowerChar :: "char \<Rightarrow> char" where
  "lowerChar c =
     (case map_of (zip ''ABCDEFGHIJKLMNOPQRSTUVWXYZ'' ''abcdefghijklmnopqrstuvwxyz'') c of
        Some d \<Rightarrow> d
      | None \<Rightarrow> c)"

definition toLowerCase :: "string \<Rightarrow> string" where
  "toLowerCase s = map lowerChar s"

text \<open>The pattern \<^verbatim>\<open>/^\s*\\begin/\<close> of \<^verbatim>\<open>scanText\<close>: white space, then a backslash and
  \<^verbatim>\<open>begin\<close>. White space is the part of \<^verbatim>\<open>\s\<close> that fits in one byte.\<close>

definition isSpace :: "char \<Rightarrow> bool" where
  "isSpace c = (c \<in> set [CHR 0x09, CHR 0x0A, CHR 0x0B, CHR 0x0C, CHR 0x0D, CHR '' '', CHR 0xA0])"

definition matchBegin :: "string \<Rightarrow> bool" where
  "matchBegin text = (take 6 (dropWhile isSpace text) = backslash # ''begin'')"

section \<open>scanText\<close>

text \<open>The renderer \<^verbatim>\<open>latexToMarkup\<close> is the caller's: it returns markup or throws (\<open>None\<close>).
  \<^verbatim>\<open>span.innerHTML = markup\<close> hands the markup to the browser's parser, which is the
  parameter \<open>innerHTML\<close>: the child nodes built from a markup string.\<close>

type_synonym renderer = "string \<Rightarrow> mathstyle \<Rightarrow> string option"

type_synonym parser = "string \<Rightarrow> node list"

text \<open>\<^verbatim>\<open>document.createElement('span')\<close>: an element without class and without children.\<close>

definition createSpan :: node where
  "createSpan = ElementNode ''SPAN'' [] []"

definition setInnerHTML :: "node \<Rightarrow> node list \<Rightarrow> node" where
  "setInnerHTML span kids = ElementNode (nodeName span) (className span) kids"

text \<open>The \<^verbatim>\<open>for\<close> loop over the segments, with the fragment's child list as accumulator.\<close>

fun scanSegments :: "segment list \<Rightarrow> renderer \<Rightarrow> parser \<Rightarrow> node list \<Rightarrow> node list" where
  "scanSegments [] latexToMarkup innerHTML fragment = fragment"
| "scanSegments (TextSeg d # rest) latexToMarkup innerHTML fragment =
     scanSegments rest latexToMarkup innerHTML (fragment @ [TextNode d])"
| "scanSegments (MathSeg d rw ms # rest) latexToMarkup innerHTML fragment =
     (case latexToMarkup d ms of
        None \<Rightarrow> scanSegments rest latexToMarkup innerHTML (fragment @ [TextNode rw])
      | Some markup \<Rightarrow>
          scanSegments rest latexToMarkup innerHTML
            (fragment @ [setInnerHTML createSpan (innerHTML markup)]))"

text \<open>\<^verbatim>\<open>scanText\<close> returns the child list of the fragment. In the environment branch the
  span is appended before the renderer is called.\<close>

definition scanText :: "string \<Rightarrow> options \<Rightarrow> renderer \<Rightarrow> parser \<Rightarrow> node list option" where
  "scanText text opts latexToMarkup innerHTML =
     (if processEnvironments (TeX opts) \<and> matchBegin text then
        (let span = createSpan; fragment = [span] in
         case latexToMarkup text displaystyle of
           Some markup \<Rightarrow> Some (fragment[0 := setInnerHTML span (innerHTML markup)])
         | None \<Rightarrow> Some (fragment @ [TextNode text]))
      else
        (case splitWithDelimiters text (delimiters (TeX opts)) of
           None \<Rightarrow> None
         | Some dat \<Rightarrow> Some (scanSegments dat latexToMarkup innerHTML [])))"

section \<open>scanElement\<close>

text \<open>The constant \<^verbatim>\<open>shouldRender\<close> computed for an element child.\<close>

definition shouldRender :: "options \<Rightarrow> string \<Rightarrow> string \<Rightarrow> bool" where
  "shouldRender opts name cls =
     (processClassPattern opts cls \<or>
      \<not> (toLowerCase name \<in> set (skipTags opts) \<or> ignoreClassPattern opts cls))"

text \<open>\<^verbatim>\<open>scanElement\<close> and its \<^verbatim>\<open>for\<close> loop over \<^verbatim>\<open>elem.childNodes\<close>, with the live child
  list and the index \<open>i\<close> as loop state. \<^verbatim>\<open>replaceChild\<close> puts the fragment's children in
  the place of child \<open>i\<close>; the index moves by \<^verbatim>\<open>frag.childNodes.length - 1\<close> and then by
  the loop's own \<^verbatim>\<open>i++\<close>. The recursive call rewrites child \<open>i\<close> in place. A node that
  is not an element has no child nodes, so the loop does nothing for it.\<close>

function scanElement :: "node \<Rightarrow> options \<Rightarrow> renderer \<Rightarrow> parser \<Rightarrow> node option"
  and scanLoop :: "node list \<Rightarrow> nat \<Rightarrow> options \<Rightarrow> renderer \<Rightarrow> parser \<Rightarrow> node list option"
where
  "scanElement elem opts latexToMarkup innerHTML =
     (case elem of
        ElementNode name cls kids \<Rightarrow>
          (case scanLoop kids 0 opts latexToMarkup innerHTML of
             None \<Rightarrow> None
           | Some kids' \<Rightarrow> Some (ElementNode name cls kids'))
      | TextNode t \<Rightarrow> Some elem
      | OtherNode k \<Rightarrow> Some elem)"
| "scanLoop kids i opts latexToMarkup innerHTML =
     (if i < length kids then
        (case kids ! i of
           TextNode t \<Rightarrow>
             (case scanText t opts latexToMarkup innerHTML of
                None \<Rightarrow> None
              | Some frag \<Rightarrow>
                  scanLoop (take i kids @ frag @ drop (i + 1) kids)
                    (nat (int i + (int (length frag) - 1) + 1)) opts latexToMarkup innerHTML)
         | ElementNode name cls sub \<Rightarrow>
             (if shouldRender opts name cls then
                (case scanElement (kids ! i) opts latexToMarkup innerHTML of
                   None \<Rightarrow> None
                 | Some child \<Rightarrow> scanLoop (kids[i := child]) (i + 1) opts latexToMarkup innerHTML)
              else scanLoop kids (i + 1) opts latexToMarkup innerHTML)
         | OtherNode k \<Rightarrow> scanLoop kids (i + 1) opts latexToMarkup innerHTML)
      else Some kids)"
  by pat_completeness auto
termination
  by (relation "measure (\<lambda>x. case x of
          Inl (elem, opts, latexToMarkup, innerHTML) \<Rightarrow> 2 * size elem
        | Inr (kids, i, opts, latexToMarkup, innerHTML) \<Rightarrow>
            2 * size_list size (drop i kids) + 1)")
     (simp_all add: Cons_nth_drop_Suc[symmetric])

declare scanElement.simps [simp del] scanLoop.simps [simp del]

section \<open>renderMathInElement\<close>

text \<open>What the entry point takes from its surroundings: \<^verbatim>\<open>document.body\<close>,
  \<^verbatim>\<open>document.getElementById\<close>, the markup parser behind \<^verbatim>\<open>innerHTML\<close>, and the
  constructor \<^verbatim>\<open>RegExp\<close>, which gives a pattern or throws a syntax error (\<open>None\<close>).\<close>

record host =
  documentBody :: node
  getElementById :: "string \<Rightarrow> node option"
  parseMarkup :: parser
  newRegExp :: "string \<Rightarrow> (string \<Rightarrow> bool) option"

text \<open>The argument \<^verbatim>\<open>elem\<close>: missing (\<^verbatim>\<open>undefined\<close> or \<^verbatim>\<open>null\<close>), a string, or a node.\<close>

datatype root = Absent | Id string | Node node

text \<open>The caller's \<^verbatim>\<open>options\<close>: each property is present or not.\<close>

record overrides =
  givenSkipTags :: "string list option"
  givenIgnoreClass :: "string option"
  givenProcessClass :: "string option"
  givenTeX :: "tex option"

text \<open>\<^verbatim>\<open>Object.assign({}, defaultOptions, options)\<close>: a property of the caller replaces the
  default as a whole.\<close>

definition assignOptions :: "settings \<Rightarrow> overrides \<Rightarrow> settings" where
  "assignOptions defaults given =
     \<lparr> skipTags = (case givenSkipTags given of None \<Rightarrow> skipTags defaults | Some v \<Rightarrow> v),
       ignoreClass = (case givenIgnoreClass given of None \<Rightarrow> ignoreClass defaults | Some v \<Rightarrow> v),
       processClass =
         (case givenProcessClass given of None \<Rightarrow> processClass defaults | Some v \<Rightarrow> v),
       TeX = (case givenTeX given of None \<Rightarrow> TeX defaults | Some v \<Rightarrow> v) \<rparr>"

datatype error = SyntaxError

text \<open>What a call that returns has done: nothing, or the traversal of one node, given with
  the node as it was and as \<^verbatim>\<open>scanElement\<close> left it.\<close>

datatype effect = NoTraversal | Traversed node node

text \<open>\<^verbatim>\<open>!elem\<close> holds for a missing argument and for the empty string.\<close>

definition falsy :: "root \<Rightarrow> bool" where
  "falsy elem = (elem = Absent \<or> elem = Id [])"

text \<open>\<open>None\<close> is a call that never returns, \<open>Inl\<close> an exception thrown to the caller.\<close>

definition renderMathInElement ::
  "host \<Rightarrow> root \<Rightarrow> overrides \<Rightarrow> renderer \<Rightarrow> (error + effect) option" where
  "renderMathInElement h elem given latexToMarkup =
     (if falsy elem then Some (Inr NoTraversal)
      else
        (let elem1 = (case elem of Id s \<Rightarrow> getElementById h s | Node n \<Rightarrow> Some n
                      | Absent \<Rightarrow> None);
             elem2 = (case elem1 of None \<Rightarrow> documentBody h | Some n \<Rightarrow> n);
             merged = assignOptions defaultOptions given
         in case newRegExp h (ignoreClass merged) of
              None \<Rightarrow> Some (Inl SyntaxError)
            | Some ignorePattern \<Rightarrow>
                (case newRegExp h (processClass merged) of
                   None \<Rightarrow> Some (Inl SyntaxError)
                 | Some processPattern \<Rightarrow>
                     (case scanElement elem2
                             \<lparr> skipTags = skipTags merged, ignoreClass = ignoreClass merged,
                               processClass = processClass merged, TeX = TeX merged,
                               ignoreClassPattern = ignorePattern,
                               processClassPattern = processPattern \<rparr>
                             latexToMarkup (parseMarkup h) of
                        None \<Rightarrow> None
                      | Some elem' \<Rightarrow> Some (Inr (Traversed elem2 elem'))))))"

section \<open>Notions used to state the properties\<close>

text \<open>The raw field of a segment: \<^verbatim>\<open>data\<close> of a text segment, \<^verbatim>\<open>rawData\<close> of a math
  segment.\<close>

fun raw :: "segment \<Rightarrow> string" where
  "raw (TextSeg d) = d"
| "raw (MathSeg d rw ms) = rw"

text \<open>A delimiter configuration in which no pair has two empty tokens.\<close>

definition properDelimiters :: "delimiters \<Rightarrow> bool" where
  "properDelimiters delims =
     list_all (\<lambda>d. fst d \<noteq> [] \<or> snd d \<noteq> []) (inline delims @ display delims)"

text \<open>The brace-aware scan described for the delimiter matcher, without the delimiter:
  the positions the scan stops at, each with the brace depth on arrival. A backslash skips
  the next character, \<^verbatim>\<open>{\<close> raises the depth and \<^verbatim>\<open>}\<close> lowers it.\<close>

function scanTrace :: "string \<Rightarrow> nat \<Rightarrow> int \<Rightarrow> (nat \<times> int) list" where
  "scanTrace text index depth =
     (if index < length text then
        (index, depth) #
          (if text ! index = backslash then scanTrace text (index + 2) depth
           else if text ! index = CHR ''{'' then scanTrace text (index + 1) (depth + 1)
           else if text ! index = CHR ''}'' then scanTrace text (index + 1) (depth - 1)
           else scanTrace text (index + 1) depth)
      else [])"
  by pat_completeness auto
termination
  by (relation "measure (\<lambda>(text, index, depth). length text - index)") auto

declare scanTrace.simps [simp del]

text \<open>The matcher as described: the first position of the scan with depth at most 0 at
  which the right delimiter occurs, or \<open>-1\<close>.\<close>

definition occursAt :: "string \<Rightarrow> string \<Rightarrow> nat \<Rightarrow> bool" where
  "occursAt delimiter text p = (slice text p (p + length delimiter) = delimiter)"

definition firstMatchAtDepth0 :: "string \<Rightarrow> string \<Rightarrow> nat \<Rightarrow> int" where
  "firstMatchAtDepth0 delimiter text startIndex =
     (case find (\<lambda>pd. snd pd \<le> 0 \<and> occursAt delimiter text (fst pd))
             (scanTrace text startIndex 0) of
        None \<Rightarrow> -1
      | Some pd \<Rightarrow> int (fst pd))"

text \<open>The recursive descent described for the tree walker, by recursion on the tree: every
  child is handled once, from left to right; a text child gives way to its fragment, an
  element child is entered when \<^const>\<open>shouldRender\<close> holds, and nothing that was put
  into the result is looked at again.\<close>

fun walkNode :: "options \<Rightarrow> renderer \<Rightarrow> parser \<Rightarrow> node \<Rightarrow> node option"
  and walkChildren :: "options \<Rightarrow> renderer \<Rightarrow> parser \<Rightarrow> node list \<Rightarrow> node list option"
where
  "walkNode opts latexToMarkup innerHTML (ElementNode name cls kids) =
     map_option (ElementNode name cls) (walkChildren opts latexToMarkup innerHTML kids)"
| "walkNode opts latexToMarkup innerHTML (TextNode t) = Some (TextNode t)"
| "walkNode opts latexToMarkup innerHTML (OtherNode k) = Some (OtherNode k)"
| "walkChildren opts latexToMarkup innerHTML [] = Some []"
| "walkChildren opts latexToMarkup innerHTML (TextNode t # rest) =
     (case scanText t opts latexToMarkup innerHTML of
        None \<Rightarrow> None
      | Some frag \<Rightarrow> map_option ((@) frag) (walkChildren opts latexToMarkup innerHTML rest))"
| "walkChildren opts latexToMarkup innerHTML (ElementNode name cls sub # rest) =
     (if shouldRender opts name cls then
        (case walkNode opts latexToMarkup innerHTML (ElementNode name cls sub) of
           None \<Rightarrow> None
         | Some child \<Rightarrow>
             map_option ((#) child) (walkChildren opts latexToMarkup innerHTML rest))
      else map_option ((#) (ElementNode name cls sub))
             (walkChildren opts latexToMarkup innerHTML rest))"
| "walkChildren opts latexToMarkup innerHTML (OtherNode k # rest) =
     map_option ((#) (OtherNode k)) (walkChildren opts latexToMarkup innerHTML rest)"

section \<open>Example inputs\<close>

text \<open>Concrete surroundings on which the properties below are also run. The stand-in for
  \<^verbatim>\<open>RegExp\<close> rejects the pattern \<^verbatim>\<open>(\<close> (an unterminated group) and takes every other
  pattern literally: it matches the strings in which the pattern occurs.\<close>

definition literalRegExp :: "string \<Rightarrow> (string \<Rightarrow> bool) option" where
  "literalRegExp pattern =
     (if pattern = ''('' then None else Some (\<lambda>s. indexOf s pattern 0 \<noteq> -1))"

definition failingRenderer :: renderer where
  "failingRenderer src ms = None"

definition echoRenderer :: renderer where
  "echoRenderer src ms = Some src"

definition textParser :: parser where
  "textParser markup = [TextNode markup]"

definition exampleBody :: node where
  "exampleBody =
     ElementNode ''BODY'' []
       [TextNode ''$$x$$'', ElementNode ''PRE'' [] [TextNode ''$$y$$'']]"

definition exampleHost :: host where
  "exampleHost =
     \<lparr> documentBody = exampleBody,
       getElementById = (\<lambda>s. None),
       parseMarkup = textParser,
       newRegExp = literalRegExp \<rparr>"

definition noOverrides :: overrides where
  "noOverrides =
     \<lparr> givenSkipTags = None, givenIgnoreClass = None, givenProcessClass = None,
       givenTeX = None \<rparr>"

definition emptyLeftOverrides :: overrides where
  "emptyLeftOverrides =
     \<lparr> givenSkipTags = None, givenIgnoreClass = None, givenProcessClass = None,
       givenTeX = Some \<lparr> disabled = False, processEnvironments = True,
                         delimiters = \<lparr> inline = [([], ''b'')], display = [] \<rparr> \<rparr> \<rparr>"

definition emptyPairOverrides :: overrides where
  "emptyPairOverrides =
     \<lparr> givenSkipTags = None, givenIgnoreClass = None, givenProcessClass = None,
       givenTeX = Some \<lparr> disabled = False, processEnvironments = True,
                         delimiters = \<lparr> inline = [([], [])], display = [] \<rparr> \<rparr> \<rparr>"

definition badPatternOverrides :: overrides where
  "badPatternOverrides =
     \<lparr> givenSkipTags = None, givenIgnoreClass = Some ''('', givenProcessClass = None,
       givenTeX = None \<rparr>"

text \<open>The options object that \<^verbatim>\<open>renderMathInElement\<close> builds from the defaults with
  \<^const>\<open>literalRegExp\<close>.\<close>

definition exampleOptions :: options where
  "exampleOptions =
     \<lparr> skipTags = skipTags defaultOptions,
       ignoreClass = ignoreClass defaultOptions,
       processClass = processClass defaultOptions,
       TeX = TeX defaultOptions,
       ignoreClassPattern = (\<lambda>s. indexOf s ''tex2jax_ignore'' 0 \<noteq> -1),
       processClassPattern = (\<lambda>s. indexOf s ''tex2jax_process'' 0 \<noteq> -1) \<rparr>"

section \<open>Facts about slice, indexOf and findEndOfMath\<close>

lemma slice_eq_bound:
  assumes "slice t k (k + length s) = s" "k \<le> length t"
  shows "k + length s \<le> length t"
proof -
  from assms(1) have "length (slice t k (k + length s)) = length s" by simp
  then show ?thesis using assms(2) by (simp add: slice_def)
qed

lemma indexOfLoop_bounds:
  "indexOfLoop t s k \<noteq> -1 \<Longrightarrow>
     0 \<le> indexOfLoop t s k \<and> k \<le> nat (indexOfLoop t s k)
     \<and> nat (indexOfLoop t s k) + length s \<le> length t"
proof (induction t s k rule: indexOfLoop.induct)
  case (1 t searchString k)
  show ?case
  proof (cases "length t < k + length searchString")
    case True
    with "1.prems" show ?thesis by (simp add: indexOfLoop.simps[of t searchString k])
  next
    case False
    note nf = this
    show ?thesis
    proof (cases "slice t k (k + length searchString) = searchString")
      case True
      with nf show ?thesis by (simp add: indexOfLoop.simps[of t searchString k])
    next
      case False
      have eq: "indexOfLoop t searchString k = indexOfLoop t searchString (k + 1)"
        using nf False by (simp add: indexOfLoop.simps[of t searchString k])
      with "1.prems" have ne: "indexOfLoop t searchString (k + 1) \<noteq> -1" by simp
      from "1.IH"[OF nf False ne] show ?thesis unfolding eq by simp
    qed
  qed
qed

lemma indexOf_bounds:
  assumes "indexOf t s p \<noteq> -1" "p \<le> length t"
  shows "0 \<le> indexOf t s p \<and> p \<le> nat (indexOf t s p)
     \<and> nat (indexOf t s p) + length s \<le> length t"
  using indexOfLoop_bounds[of t s "min p (length t)"] assms
  by (simp add: indexOf_def min_def)

lemma findEndOfMathLoop_bounds:
  "findEndOfMathLoop d t i b \<noteq> -1 \<Longrightarrow>
     0 \<le> findEndOfMathLoop d t i b \<and> i \<le> nat (findEndOfMathLoop d t i b)
     \<and> nat (findEndOfMathLoop d t i b) + length d \<le> length t"
proof (induction d t i b rule: findEndOfMathLoop.induct)
  case (1 delimiter t index braceLevel)
  show ?case
  proof (cases "index < length t")
    case False
    with "1.prems" show ?thesis by (simp add: findEndOfMathLoop.simps[of delimiter t index braceLevel])
  next
    case True
    note lt = this
    note unf = findEndOfMathLoop.simps[of delimiter t index braceLevel]
    show ?thesis
    proof (cases "braceLevel \<le> 0 \<and> slice t index (index + length delimiter) = delimiter")
      case True
      with lt slice_eq_bound[of t index delimiter] show ?thesis by (simp add: unf)
    next
      case False
      note nm = this
      consider (bs) "t ! index = backslash"
        | (ob) "t ! index \<noteq> backslash" "t ! index = CHR ''{''"
        | (cb) "t ! index \<noteq> backslash" "t ! index \<noteq> CHR ''{''" "t ! index = CHR ''}''"
        | (ot) "t ! index \<noteq> backslash" "t ! index \<noteq> CHR ''{''" "t ! index \<noteq> CHR ''}''"
        by blast
      then show ?thesis
      proof cases
        case bs
        have eq: "findEndOfMathLoop delimiter t index braceLevel = findEndOfMathLoop delimiter t (index + 1 + 1) braceLevel"
          using lt nm bs by (auto simp: unf)
        with "1.prems" have "findEndOfMathLoop delimiter t (index + 1 + 1) braceLevel \<noteq> -1" by simp
        from "1.IH"(1)[OF lt nm bs this] show ?thesis unfolding eq by simp
      next
        case ob
        have eq: "findEndOfMathLoop delimiter t index braceLevel = findEndOfMathLoop delimiter t (index + 1) (braceLevel + 1)"
          using lt nm ob by (auto simp: unf)
        with "1.prems" have "findEndOfMathLoop delimiter t (index + 1) (braceLevel + 1) \<noteq> -1" by simp
        from "1.IH"(2)[OF lt nm ob this] show ?thesis unfolding eq by simp
      next
        case cb
        have eq: "findEndOfMathLoop delimiter t index braceLevel = findEndOfMathLoop delimiter t (index + 1) (braceLevel - 1)"
          using lt nm cb by (auto simp: unf)
        with "1.prems" have "findEndOfMathLoop delimiter t (index + 1) (braceLevel - 1) \<noteq> -1" by simp
        from "1.IH"(3)[OF lt nm cb this] show ?thesis unfolding eq by simp
      next
        case ot
        have eq: "findEndOfMathLoop delimiter t index braceLevel = findEndOfMathLoop delimiter t (index + 1) braceLevel"
          using lt nm ot by (auto simp: unf)
        with "1.prems" have "findEndOfMathLoop delimiter t (index + 1) braceLevel \<noteq> -1" by simp
        from "1.IH"(4)[OF lt nm ot this] show ?thesis unfolding eq by simp
      qed
    qed
  qed
qed

lemma findEndOfMath_bounds:
  "findEndOfMath d t i \<noteq> -1 \<Longrightarrow>
     0 \<le> findEndOfMath d t i \<and> i \<le> nat (findEndOfMath d t i)
     \<and> nat (findEndOfMath d t i) + length d \<le> length t"
  unfolding findEndOfMath_def by (rule findEndOfMathLoop_bounds)

lemma slice_drop_join:
  "a \<le> b \<Longrightarrow> slice t a b @ drop b t = drop a t"
proof -
  assume ab: "a \<le> b"
  have "drop b t = drop (b - a) (drop a t)" using ab by simp
  then show ?thesis unfolding slice_def by (simp only: append_take_drop_id)
qed

lemma findEndOfMathLoop_trace:
  "findEndOfMathLoop d t i b =
     (case find (\<lambda>pd. snd pd \<le> 0 \<and> occursAt d t (fst pd)) (scanTrace t i b) of
        None \<Rightarrow> -1 | Some pd \<Rightarrow> int (fst pd))"
proof (induction d t i b rule: findEndOfMathLoop.induct)
  case (1 delimiter t index braceLevel)
  note unf = findEndOfMathLoop.simps[of delimiter t index braceLevel]
    and tr = scanTrace.simps[of t index braceLevel]
  show ?case
  proof (cases "index < length t")
    case False
    then show ?thesis by (simp add: unf tr)
  next
    case True
    note lt = this
    show ?thesis
    proof (cases "braceLevel \<le> 0 \<and> slice t index (index + length delimiter) = delimiter")
      case True
      with lt show ?thesis by (simp add: unf tr occursAt_def)
    next
      case False
      note nm = this
      consider (bs) "t ! index = backslash"
        | (ob) "t ! index \<noteq> backslash" "t ! index = CHR ''{''"
        | (cb) "t ! index \<noteq> backslash" "t ! index \<noteq> CHR ''{''" "t ! index = CHR ''}''"
        | (ot) "t ! index \<noteq> backslash" "t ! index \<noteq> CHR ''{''" "t ! index \<noteq> CHR ''}''"
        by blast
      then show ?thesis
      proof cases
        case bs
        from "1.IH"(1)[OF lt nm bs] lt nm bs show ?thesis
          by (auto simp: unf tr occursAt_def)
      next
        case ob
        from "1.IH"(2)[OF lt nm ob] lt nm ob show ?thesis
          by (auto simp: unf tr occursAt_def)
      next
        case cb
        from "1.IH"(3)[OF lt nm cb] lt nm cb show ?thesis
          by (auto simp: unf tr occursAt_def)
      next
        case ot
        from "1.IH"(4)[OF lt nm ot] lt nm ot show ?thesis
          by (auto simp: unf tr occursAt_def)
      qed
    qed
  qed
qed

section \<open>The segmenter loop: what it returns, and when it returns\<close>

lemma splitLoop_roundtrip:
  assumes run: "splitLoop t l r st lk c fd = Some res"
  shows "c \<le> length t \<longrightarrow> fst res \<le> length t \<and>
     concat (map raw (snd res)) @ drop (fst res) t = concat (map raw fd) @ drop c t"
proof (rule splitLoop.raw_induct[where P = "\<lambda>t l r st lk c fd res. c \<le> length t \<longrightarrow> fst res \<le> length t \<and>
     concat (map raw (snd res)) @ drop (fst res) t = concat (map raw fd) @ drop c t", OF _ run], goal_cases)
  case (1 splitLoop' t l r st lk c fd res)
  note IH = 1(1) and body = 1(2)
  show ?case
  proof
    assume cl: "c \<le> length t"
    show "fst res \<le> length t \<and>
      concat (map raw (snd res)) @ drop (fst res) t = concat (map raw fd) @ drop c t"
    proof (cases lk)
      case True
      note lk = this
      show ?thesis
      proof (cases "indexOf t l c = -1")
        case True
        with lk body cl show ?thesis by (auto simp: Let_def)
      next
        case False
        from indexOf_bounds[OF False cl]
        have b: "0 \<le> indexOf t l c" "c \<le> nat (indexOf t l c)" "nat (indexOf t l c) + length l \<le> length t"
          by simp_all
        from body lk False
        have call: "splitLoop' t l r st False (nat (indexOf t l c))
               (fd @ [TextSeg (slice t c (nat (indexOf t l c)))]) = Some res"
          by (simp add: Let_def)
        from IH[OF call] b
        have "fst res \<le> length t" and
          "concat (map raw (snd res)) @ drop (fst res) t =
             concat (map raw (fd @ [TextSeg (slice t c (nat (indexOf t l c)))])) @ drop (nat (indexOf t l c)) t"
          by simp_all
        then show ?thesis using slice_drop_join[OF b(2), of t] by simp
      qed
    next
      case False
      note lk = this
      let ?n = "findEndOfMath r t (c + length l)"
      show ?thesis
      proof (cases "?n = -1")
        case True
        with lk body cl show ?thesis by (auto simp: Let_def)
      next
        case False
        from findEndOfMath_bounds[OF False]
        have b: "0 \<le> ?n" "c + length l \<le> nat ?n" "nat ?n + length r \<le> length t"
          by simp_all
        from body lk False
        have call: "splitLoop' t l r st True (nat ?n + length r)
               (fd @ [MathSeg (slice t (c + length l) (nat ?n)) (slice t c (nat ?n + length r)) st]) = Some res"
          by (simp add: Let_def)
        have le: "c \<le> nat ?n + length r" using b by simp
        from IH[OF call] b
        have "fst res \<le> length t" and
          "concat (map raw (snd res)) @ drop (fst res) t =
             concat (map raw (fd @ [MathSeg (slice t (c + length l) (nat ?n)) (slice t c (nat ?n + length r)) st]))
               @ drop (nat ?n + length r) t"
          by simp_all
        then show ?thesis using slice_drop_join[OF le, of t] by simp
      qed
    qed
  qed
qed

lemma splitLoop_terminates:
  assumes ne: "l \<noteq> [] \<or> r \<noteq> []"
  shows "c \<le> length t \<Longrightarrow> \<exists>res. splitLoop t l r st lk c fd = Some res"
proof (induction "2 * (length t - c) + (if lk then 1 else 0)" arbitrary: lk c fd rule: less_induct)
  case less
  note cl = \<open>c \<le> length t\<close>
  show ?case
  proof (cases lk)
    case True
    note lk = this
    show ?thesis
    proof (cases "indexOf t l c = -1")
      case True
      with lk show ?thesis by (subst splitLoop.simps) (simp add: Let_def)
    next
      case False
      from indexOf_bounds[OF False cl]
      have b: "0 \<le> indexOf t l c" "c \<le> nat (indexOf t l c)" "nat (indexOf t l c) + length l \<le> length t"
        by simp_all
      have "\<exists>res. splitLoop t l r st False (nat (indexOf t l c))
               (fd @ [TextSeg (slice t c (nat (indexOf t l c)))]) = Some res"
        by (rule less.hyps) (use b lk in simp_all)
      then show ?thesis using lk False by (subst splitLoop.simps) (simp add: Let_def)
    qed
  next
    case False
    note lk = this
    let ?n = "findEndOfMath r t (c + length l)"
    show ?thesis
    proof (cases "?n = -1")
      case True
      with lk show ?thesis by (subst splitLoop.simps) (simp add: Let_def)
    next
      case False
      from findEndOfMath_bounds[OF False]
      have b: "0 \<le> ?n" "c + length l \<le> nat ?n" "nat ?n + length r \<le> length t"
        by simp_all
      have "0 < length l + length r" using ne by auto
      with b have gt: "c < nat ?n + length r" by linarith
      have "\<exists>res. splitLoop t l r st True (nat ?n + length r)
               (fd @ [MathSeg (slice t (c + length l) (nat ?n)) (slice t c (nat ?n + length r)) st]) = Some res"
        by (rule less.hyps) (use b lk gt in simp_all)
      then show ?thesis using lk False by (subst splitLoop.simps) (simp add: Let_def)
    qed
  qed
qed

lemma splitText_roundtrip:
  assumes "splitText t l r st fd = Some out"
  shows "concat (map raw out) = concat (map raw fd) @ t"
proof (cases "indexOf t l 0 = -1")
  case True
  with assms obtain c fd' where run: "splitLoop t l r st True 0 fd = Some (c, fd')"
    and out: "out = fd' @ [TextSeg (sliceFrom t c)]"
    by (auto simp: splitText_def Let_def split: option.splits)
  from splitLoop_roundtrip[OF run] show ?thesis
    by (simp add: out sliceFrom_def)
next
  case False
  let ?n = "nat (indexOf t l 0)"
  from indexOf_bounds[OF False] have b: "?n \<le> length t" by simp
  from False assms obtain c fd' where
    run: "splitLoop t l r st False ?n (fd @ [TextSeg (slice t 0 ?n)]) = Some (c, fd')"
    and out: "out = fd' @ [TextSeg (sliceFrom t c)]"
    by (auto simp: splitText_def Let_def split: option.splits)
  from splitLoop_roundtrip[OF run] b show ?thesis
    by (simp add: out sliceFrom_def slice_def)
qed

lemma splitText_terminates:
  assumes "l \<noteq> [] \<or> r \<noteq> []"
  shows "\<exists>out. splitText t l r st fd = Some out"
proof (cases "indexOf t l 0 = -1")
  case True
  from splitLoop_terminates[OF assms, of 0 t st True fd]
  obtain res where "splitLoop t l r st True 0 fd = Some res" by auto
  with True show ?thesis by (cases res) (simp add: splitText_def)
next
  case False
  let ?n = "nat (indexOf t l 0)"
  from indexOf_bounds[OF False] have b: "?n \<le> length t" by simp
  from splitLoop_terminates[OF assms b, of st False "fd @ [TextSeg (slice t 0 ?n)]"]
  obtain res where "splitLoop t l r st False ?n (fd @ [TextSeg (slice t 0 ?n)]) = Some res" by auto
  with False show ?thesis by (cases res) (simp add: splitText_def)
qed

lemma splitAtDelimitersLoop_roundtrip:
  "splitAtDelimitersLoop sd l r st fd = Some out \<Longrightarrow>
     concat (map raw out) = concat (map raw fd) @ concat (map raw sd)"
proof (induction sd l r st fd rule: splitAtDelimitersLoop.induct)
  case (1 l r st fd)
  then show ?case by simp
next
  case (2 t sd l r st fd)
  from "2.prems" obtain fd' where st: "splitText t l r st fd = Some fd'"
    and rest: "splitAtDelimitersLoop sd l r st fd' = Some out"
    by (auto split: option.splits)
  from "2.IH"[OF st rest] splitText_roundtrip[OF st] show ?case by simp
next
  case (3 d rw s sd l r st fd)
  then show ?case by simp
qed

lemma splitAtDelimitersLoop_terminates:
  "l \<noteq> [] \<or> r \<noteq> [] \<Longrightarrow> \<exists>out. splitAtDelimitersLoop sd l r st fd = Some out"
proof (induction sd l r st fd rule: splitAtDelimitersLoop.induct)
  case (1 l r st fd)
  then show ?case by simp
next
  case (2 t sd l r st fd)
  from splitText_terminates[OF "2.prems", of t st fd]
  obtain fd' where st: "splitText t l r st fd = Some fd'" by blast
  from "2.IH"[OF st "2.prems"] st show ?case by simp
next
  case (3 d rw s sd l r st fd)
  then show ?case by simp
qed

lemma splitEach_roundtrip:
  "splitEach dat ds st = Some out \<Longrightarrow> concat (map raw out) = concat (map raw dat)"
proof (induction dat ds st rule: splitEach.induct)
  case (1 dat st)
  then show ?case by simp
next
  case (2 dat d ds st)
  from "2.prems" obtain dat' where
    a: "splitAtDelimiters dat (fst d) (snd d) st = Some dat'"
    and b: "splitEach dat' ds st = Some out"
    by (auto split: option.splits)
  from a have "concat (map raw dat') = concat (map raw dat)"
    using splitAtDelimitersLoop_roundtrip[of dat "fst d" "snd d" st "[]" dat']
    by (simp add: splitAtDelimiters_def)
  with "2.IH"[OF a b] show ?case by simp
qed

lemma splitEach_terminates:
  "\<forall>d \<in> set ds. fst d \<noteq> [] \<or> snd d \<noteq> [] \<Longrightarrow> \<exists>out. splitEach dat ds st = Some out"
proof (induction dat ds st rule: splitEach.induct)
  case (1 dat st)
  then show ?case by simp
next
  case (2 dat d ds st)
  from "2.prems" have ne: "fst d \<noteq> [] \<or> snd d \<noteq> []" by simp
  from splitAtDelimitersLoop_terminates[OF ne, of dat st "[]"]
  obtain dat' where a: "splitAtDelimiters dat (fst d) (snd d) st = Some dat'"
    unfolding splitAtDelimiters_def by auto
  from "2.IH"[OF a] "2.prems" a show ?case by simp
qed

lemma splitWithDelimiters_roundtrip:
  assumes "splitWithDelimiters t delims = Some out"
  shows "concat (map raw out) = t"
proof -
  from assms obtain dat where a: "splitEach [TextSeg t] (inline delims) textstyle = Some dat"
    and b: "splitEach dat (display delims) displaystyle = Some out"
    by (auto simp: splitWithDelimiters_def split: option.splits)
  from splitEach_roundtrip[OF a] splitEach_roundtrip[OF b] show ?thesis by simp
qed

lemma splitWithDelimiters_terminates:
  assumes "properDelimiters delims"
  shows "\<exists>out. splitWithDelimiters t delims = Some out"
proof -
  from assms have i: "\<forall>d \<in> set (inline delims). fst d \<noteq> [] \<or> snd d \<noteq> []"
    and d: "\<forall>d \<in> set (display delims). fst d \<noteq> [] \<or> snd d \<noteq> []"
    by (auto simp: properDelimiters_def list_all_iff)
  from splitEach_terminates[OF i, of "[TextSeg t]" textstyle]
  obtain dat where a: "splitEach [TextSeg t] (inline delims) textstyle = Some dat" by auto
  from splitEach_terminates[OF d, of dat displaystyle] a
  show ?thesis by (simp add: splitWithDelimiters_def)
qed

lemma splitLoop_diverges_aux:
  assumes run: "splitLoop t l r st lk c fd = Some res"
  shows "\<not> (l = [] \<and> r = [] \<and> c < length t)"
proof (rule splitLoop.raw_induct[where P = "\<lambda>t l r st lk c fd res. \<not> (l = [] \<and> r = [] \<and> c < length t)", OF _ run], goal_cases)
  case (1 splitLoop' t l r st lk c fd res)
  note IH = 1(1) and body = 1(2)
  show ?case
  proof
    assume inv: "l = [] \<and> r = [] \<and> c < length t"
    then have io: "indexOf t l c = int c"
      by (simp add: indexOf_def indexOfLoop.simps[of t "[]" c] slice_def)
    from inv have fe: "findEndOfMath r t (c + length l) = int c"
      by (simp add: findEndOfMath_def findEndOfMathLoop.simps[of "[]" t c 0] slice_def)
    show False
    proof (cases lk)
      case True
      with body io have "splitLoop' t l r st False c (fd @ [TextSeg (slice t c c)]) = Some res"
        by (simp add: Let_def)
      from IH[OF this] inv show False by simp
    next
      case False
      with body fe inv have "splitLoop' t l r st True c
         (fd @ [MathSeg (slice t c c) (slice t c c) st]) = Some res"
        by (simp add: Let_def)
      from IH[OF this] inv show False by simp
    qed
  qed
qed

lemma splitLoop_diverges:
  "c < length t \<Longrightarrow> splitLoop t [] [] st lk c fd = None"
  using splitLoop_diverges_aux[of t "[]" "[]" st lk c fd]
  by (cases "splitLoop t [] [] st lk c fd") auto

section \<open>The child loop and the recursive descent\<close>

lemma scanLoop_frame_aux:
  "\<forall>pre. scanLoop (pre @ kids) (length pre + i) opts ltm ih = map_option ((@) pre) (scanLoop kids i opts ltm ih)"
proof (rule scanElement_scanLoop.induct(2)[where P = "\<lambda>_ _ _ _. True" and
    Q = "\<lambda>kids i opts ltm ih. \<forall>pre. scanLoop (pre @ kids) (length pre + i) opts ltm ih = map_option ((@) pre) (scanLoop kids i opts ltm ih)"], goal_cases)
  case (1 elem opts ltm ih)
  show ?case by simp
next
  case (2 kids i opts ltm ih)
  note IH = 2
  show ?case
  proof
    fix pre :: "node list"
    note L = scanLoop.simps[of "pre @ kids" "length pre + i" opts ltm ih]
      and R = scanLoop.simps[of kids i opts ltm ih]
    show "scanLoop (pre @ kids) (length pre + i) opts ltm ih = map_option ((@) pre) (scanLoop kids i opts ltm ih)"
    proof (cases "i < length kids")
      case False
      then show ?thesis by (simp add: L R)
    next
      case True
      note lt = this
      have nth: "(pre @ kids) ! (length pre + i) = kids ! i" by (simp add: nth_append)
      show ?thesis
      proof (cases "kids ! i")
        case (TextNode t)
        show ?thesis
        proof (cases "scanText t opts ltm ih")
          case None
          with lt nth TextNode show ?thesis by (simp add: L R)
        next
          case (Some frag)
          from IH(1)[OF lt TextNode Some]
          have "scanLoop (pre @ take i kids @ frag @ drop (i + 1) kids)
                  (length pre + nat (int i + (int (length frag) - 1) + 1)) opts ltm ih =
                map_option ((@) pre) (scanLoop (take i kids @ frag @ drop (i + 1) kids)
                  (nat (int i + (int (length frag) - 1) + 1)) opts ltm ih)"
            by blast
          moreover have "nat (int (length pre + i) + (int (length frag) - 1) + 1) =
              length pre + nat (int i + (int (length frag) - 1) + 1)" by simp
          ultimately show ?thesis using lt nth TextNode Some
            by (simp add: L R)
        qed
      next
        case (ElementNode name cls sub)
        show ?thesis
        proof (cases "shouldRender opts name cls")
          case False
          from IH(4)[OF lt ElementNode False]
          have "scanLoop (pre @ kids) (length pre + (i + 1)) opts ltm ih =
                map_option ((@) pre) (scanLoop kids (i + 1) opts ltm ih)" by blast
          then show ?thesis using lt nth ElementNode False by (simp add: L R)
        next
          case True
          show ?thesis
          proof (cases "scanElement (kids ! i) opts ltm ih")
            case None
            with lt nth ElementNode True show ?thesis by (simp add: L R)
          next
            case (Some child)
            from IH(3)[OF lt ElementNode True Some]
            have "scanLoop (pre @ kids[i := child]) (length pre + (i + 1)) opts ltm ih =
                map_option ((@) pre) (scanLoop (kids[i := child]) (i + 1) opts ltm ih)" by blast
            then show ?thesis using lt nth ElementNode True Some
              by (simp add: L R list_update_append)
          qed
        qed
      next
        case (OtherNode k)
        from IH(5)[OF lt OtherNode]
        have "scanLoop (pre @ kids) (length pre + (i + 1)) opts ltm ih =
              map_option ((@) pre) (scanLoop kids (i + 1) opts ltm ih)" by blast
        then show ?thesis using lt nth OtherNode by (simp add: L R)
      qed
    qed
  qed
qed

lemma scanLoop_frame:
  "scanLoop (pre @ kids) (length pre) opts ltm ih = map_option ((@) pre) (scanLoop kids 0 opts ltm ih)"
  using scanLoop_frame_aux[of kids 0 opts ltm ih] by simp

lemma scanLoop_Nil: "scanLoop [] 0 opts ltm ih = Some []"
  by (simp add: scanLoop.simps)

lemma scanLoop_Text:
  "scanLoop (TextNode t # rest) 0 opts ltm ih =
     (case scanText t opts ltm ih of None \<Rightarrow> None
      | Some frag \<Rightarrow> map_option ((@) frag) (scanLoop rest 0 opts ltm ih))"
proof (cases "scanText t opts ltm ih")
  case None
  then show ?thesis by (simp add: scanLoop.simps[of "TextNode t # rest" 0])
next
  case (Some frag)
  have "scanLoop (TextNode t # rest) 0 opts ltm ih = scanLoop (frag @ rest) (length frag) opts ltm ih"
    using Some by (simp add: scanLoop.simps[of "TextNode t # rest" 0])
  then show ?thesis using Some by (simp add: scanLoop_frame)
qed

lemma scanLoop_step:
  "scanLoop (x # rest) (Suc 0) opts ltm ih = map_option ((#) x) (scanLoop rest 0 opts ltm ih)"
proof -
  have "(@) [x] = (#) x" by (rule ext) simp
  then show ?thesis using scanLoop_frame[of "[x]" rest opts ltm ih] by simp
qed

lemma scanLoop_Element:
  "scanLoop (ElementNode name cls sub # rest) 0 opts ltm ih =
     (if shouldRender opts name cls then
        (case scanElement (ElementNode name cls sub) opts ltm ih of None \<Rightarrow> None
         | Some child \<Rightarrow> map_option ((#) child) (scanLoop rest 0 opts ltm ih))
      else map_option ((#) (ElementNode name cls sub)) (scanLoop rest 0 opts ltm ih))"
  by (simp add: scanLoop.simps[of "ElementNode name cls sub # rest" 0] scanLoop_step split: option.splits)

lemma scanLoop_Other:
  "scanLoop (OtherNode k # rest) 0 opts ltm ih = map_option ((#) (OtherNode k)) (scanLoop rest 0 opts ltm ih)"
  by (simp add: scanLoop.simps[of "OtherNode k # rest" 0] scanLoop_step)

lemma scan_walk:
  "scanElement elem opts ltm ih = walkNode opts ltm ih elem"
  "scanLoop kids 0 opts ltm ih = walkChildren opts ltm ih kids"
proof (induction opts ltm ih elem and opts ltm ih kids rule: walkNode_walkChildren.induct)
  case (1 opts ltm ih name cls kids)
  then show ?case by (simp add: scanElement.simps split: option.splits)
next
  case (2 opts ltm ih t)
  then show ?case by (simp add: scanElement.simps)
next
  case (3 opts ltm ih k)
  then show ?case by (simp add: scanElement.simps)
next
  case (4 opts ltm ih)
  then show ?case by (simp add: scanLoop_Nil)
next
  case (5 opts ltm ih t rest)
  then show ?case by (simp add: scanLoop_Text split: option.splits)
next
  case (6 opts ltm ih name cls sub rest)
  then show ?case by (simp add: scanLoop_Element split: option.splits)
next
  case (7 opts ltm ih k rest)
  then show ?case by (simp add: scanLoop_Other)
qed


lemma scanText_terminates:
  assumes "properDelimiters (delimiters (TeX opts))"
  shows "\<exists>frag. scanText t opts ltm ih = Some frag"
proof -
  from splitWithDelimiters_terminates[OF assms, of t]
  obtain dat where "splitWithDelimiters t (delimiters (TeX opts)) = Some dat" by blast
  then show ?thesis by (simp add: scanText_def Let_def split: option.splits)
qed

lemma walk_terminates:
  "properDelimiters (delimiters (TeX opts)) \<Longrightarrow> \<exists>r. walkNode opts ltm ih elem = Some r"
  "properDelimiters (delimiters (TeX opts)) \<Longrightarrow> \<exists>rs. walkChildren opts ltm ih kids = Some rs"
proof (induction opts ltm ih elem and opts ltm ih kids rule: walkNode_walkChildren.induct)
  case (1 opts ltm ih name cls kids)
  then show ?case by auto
next
  case (2 opts ltm ih t)
  then show ?case by simp
next
  case (3 opts ltm ih k)
  then show ?case by simp
next
  case (4 opts ltm ih)
  then show ?case by simp
next
  case (5 opts ltm ih t rest)
  from scanText_terminates[OF "5.prems", of t ltm ih]
  obtain frag where f: "scanText t opts ltm ih = Some frag" by blast
  from "5.IH"[OF f "5.prems"] f show ?case by auto
next
  case (6 opts ltm ih name cls sub rest)
  show ?case
  proof (cases "shouldRender opts name cls")
    case True
    from "6.IH"(1)[OF True "6.prems"] obtain child where
      c: "walkNode opts ltm ih (ElementNode name cls sub) = Some child" by blast
    from "6.IH"(2)[OF True c "6.prems"] c True show ?thesis by auto
  next
    case False
    from "6.IH"(3)[OF False "6.prems"] False show ?thesis by auto
  qed
next
  case (7 opts ltm ih k rest)
  then show ?case by auto
qed

lemma scanElement_terminates:
  "properDelimiters (delimiters (TeX opts)) \<Longrightarrow> \<exists>r. scanElement elem opts ltm ih = Some r"
  using walk_terminates(1)[of opts ltm ih elem] by (simp add: scan_walk)

lemma renderMathInElement_throws_iff:
  "renderMathInElement h elem given ltm = Some (Inl e) \<longleftrightarrow>
     \<not> falsy elem \<and>
     (newRegExp h (ignoreClass (assignOptions defaultOptions given)) = None \<or>
      newRegExp h (processClass (assignOptions defaultOptions given)) = None)"
  by (cases e) (auto simp: renderMathInElement_def Let_def split: option.splits)

section \<open>Evaluation on concrete inputs\<close>

lemmas segment_eval =
  slice_def sliceFrom_def indexOf_def indexOfLoop.simps findEndOfMath_def
  findEndOfMathLoop.simps splitText_def splitAtDelimiters_def splitWithDelimiters_def
  splitLoop.simps Let_def

lemmas tree_eval =
  renderMathInElement_def falsy_def exampleHost_def exampleBody_def noOverrides_def
  assignOptions_def defaultOptions_def literalRegExp_def scanElement.simps scanLoop.simps
  scanText_def matchBegin_def isSpace_def shouldRender_def toLowerCase_def lowerChar_def
  createSpan_def setInnerHTML_def echoRenderer_def failingRenderer_def textParser_def
  emptyLeftOverrides_def emptyPairOverrides_def badPatternOverrides_def exampleOptions_def
  properDelimiters_def

section \<open>The claims\<close>

text \<open>C1. Round trip: whenever \<^const>\<open>splitWithDelimiters\<close> returns, over all its inline
  and display passes, the raw fields of the segments (\<^verbatim>\<open>rawData\<close> of a math segment,
  \<^verbatim>\<open>data\<close> of a text segment), concatenated in order, are the input text; and it does
  return for every configuration in which no pair has two empty tokens.\<close>

theorem round_trip:
  "(\<forall>dat. splitWithDelimiters input delims = Some dat \<longrightarrow> concat (map raw dat) = input)
   \<and> (properDelimiters delims \<longrightarrow> (\<exists>dat. splitWithDelimiters input delims = Some dat))"
  using splitWithDelimiters_roundtrip[of input delims] splitWithDelimiters_terminates[of delims input]
  by blast

theorem round_trip_witness:
  "properDelimiters (delimiters (TeX defaultOptions))
   \<and> splitWithDelimiters ''a $$ x $$ $$ y $$ b'' (delimiters (TeX defaultOptions)) =
       Some [TextSeg ''a '', MathSeg '' x '' ''$$ x $$'' displaystyle, TextSeg '' '',
             MathSeg '' y '' ''$$ y $$'' displaystyle, TextSeg '' b'']
   \<and> concat (map raw [TextSeg ''a '', MathSeg '' x '' ''$$ x $$'' displaystyle, TextSeg '' '',
             MathSeg '' y '' ''$$ y $$'' displaystyle, TextSeg '' b'']) = ''a $$ x $$ $$ y $$ b''"
  using round_trip[of "''a $$ x $$ $$ y $$ b''" "delimiters (TeX defaultOptions)"]
  by (simp add: defaultOptions_def properDelimiters_def segment_eval)

text \<open>C2, as the code has it. A missing root (and the empty string) makes the call return
  at once, with no traversal; a non-empty string that names no node makes the call traverse
  \<^verbatim>\<open>document.body\<close>, exactly as if the body had been passed.\<close>

theorem root_resolution:
  "(falsy elem \<longrightarrow> renderMathInElement h elem given ltm = Some (Inr NoTraversal))
   \<and> (s \<noteq> [] \<and> getElementById h s = None \<longrightarrow>
        renderMathInElement h (Id s) given ltm =
        renderMathInElement h (Node (documentBody h)) given ltm)"
  by (simp add: renderMathInElement_def falsy_def)

theorem root_resolution_witness:
  "falsy Absent
   \<and> renderMathInElement exampleHost Absent noOverrides failingRenderer = Some (Inr NoTraversal)
   \<and> getElementById exampleHost ''nowhere'' = None
   \<and> renderMathInElement exampleHost (Id ''nowhere'') noOverrides failingRenderer =
       renderMathInElement exampleHost (Node exampleBody) noOverrides failingRenderer"
  using root_resolution[of Absent exampleHost noOverrides failingRenderer "''nowhere''"]
  by (simp add: falsy_def exampleHost_def)

text \<open>C2 as stated fails: with a missing root the body is not traversed, and with an
  identifier that does not resolve the body is traversed and rewritten.\<close>

theorem root_resolution_counterexample:
  "renderMathInElement exampleHost Absent noOverrides echoRenderer = Some (Inr NoTraversal)
   \<and> getElementById exampleHost ''nowhere'' = None
   \<and> renderMathInElement exampleHost (Id ''nowhere'') noOverrides echoRenderer =
       Some (Inr (Traversed exampleBody
         (ElementNode ''BODY'' []
            [TextNode [], ElementNode ''SPAN'' [] [TextNode ''x''], TextNode [],
             ElementNode ''PRE'' [] [TextNode ''$$y$$'']])))"
  by (simp add: tree_eval segment_eval)

text \<open>C3, as the code has it. \<^const>\<open>findEndOfMath\<close> returns the first position of the
  brace-aware scan (backslash skips the next character, \<^verbatim>\<open>{\<close> raises the depth, \<^verbatim>\<open>}\<close>
  lowers it) at which the depth is at most 0 and the right delimiter occurs, and \<open>-1\<close> when
  there is none; in particular \<open>-1\<close> when every occurrence that the scan reaches lies at
  positive depth, as inside a brace group that is never closed and that no unmatched
  closing brace precedes.\<close>

theorem findEndOfMath_first_match:
  "findEndOfMath delimiter t startIndex = firstMatchAtDepth0 delimiter t startIndex
   \<and> ((\<forall>pd \<in> set (scanTrace t startIndex 0). occursAt delimiter t (fst pd) \<longrightarrow> 0 < snd pd)
        \<longrightarrow> findEndOfMath delimiter t startIndex = -1)"
proof
  show eq: "findEndOfMath delimiter t startIndex = firstMatchAtDepth0 delimiter t startIndex"
    by (simp add: findEndOfMath_def firstMatchAtDepth0_def findEndOfMathLoop_trace)
  show "(\<forall>pd \<in> set (scanTrace t startIndex 0). occursAt delimiter t (fst pd) \<longrightarrow> 0 < snd pd)
        \<longrightarrow> findEndOfMath delimiter t startIndex = -1"
  proof
    assume a: "\<forall>pd \<in> set (scanTrace t startIndex 0). occursAt delimiter t (fst pd) \<longrightarrow> 0 < snd pd"
    then have "find (\<lambda>pd. snd pd \<le> 0 \<and> occursAt delimiter t (fst pd)) (scanTrace t startIndex 0) = None"
      by (auto simp: find_None_iff)
    then show "findEndOfMath delimiter t startIndex = -1"
      by (simp add: eq firstMatchAtDepth0_def)
  qed
qed

theorem findEndOfMath_first_match_witness:
  "scanTrace ''{ x $$'' 0 0 = [(0, 0), (1, 1), (2, 1), (3, 1), (4, 1), (5, 1)]
   \<and> occursAt ''$$'' ''{ x $$'' 4
   \<and> findEndOfMath ''$$'' ''{ x $$'' 0 = -1
   \<and> firstMatchAtDepth0 ''$$'' ''{ x } $$'' 0 = 6
   \<and> findEndOfMath ''$$'' ''{ x } $$'' 0 = 6"
proof -
  have tr: "scanTrace ''{ x $$'' 0 0 = [(0, 0), (1, 1), (2, 1), (3, 1), (4, 1), (5, 1)]"
    by (simp add: scanTrace.simps)
  have hyp: "\<forall>pd \<in> set (scanTrace ''{ x $$'' 0 0). occursAt ''$$'' ''{ x $$'' (fst pd) \<longrightarrow> 0 < snd pd"
    by (simp add: tr occursAt_def slice_def)
  have a: "findEndOfMath ''$$'' ''{ x $$'' 0 = -1"
    using findEndOfMath_first_match[of "''$$''" "''{ x $$''" 0] hyp by blast
  have b: "firstMatchAtDepth0 ''$$'' ''{ x } $$'' 0 = 6"
    by (simp add: firstMatchAtDepth0_def scanTrace.simps occursAt_def slice_def)
  have c: "findEndOfMath ''$$'' ''{ x } $$'' 0 = 6"
    using findEndOfMath_first_match[of "''$$''" "''{ x } $$''" 0] b by simp
  show ?thesis using tr a b c by (simp add: occursAt_def slice_def)
qed

text \<open>C3 as stated fails in its last part: in \<^verbatim>\<open>}{ $$\<close> the delimiter \<^verbatim>\<open>$$\<close> occurs only
  once, inside the group opened at offset 1 and never closed, and it is found all the same,
  at offset 3: the closing brace in front has lowered the counter to \<open>-1\<close>, so the depth
  there is 0.\<close>

theorem findEndOfMath_stray_close_counterexample:
  "scanTrace ''}{ $$'' 0 0 = [(0, 0), (1, -1), (2, 0), (3, 0), (4, 0)]
   \<and> indexOf ''}{ $$'' ''$$'' 0 = 3
   \<and> indexOf ''}{ $$'' ''$$'' 4 = -1
   \<and> findEndOfMath ''$$'' ''}{ $$'' 0 = 3"
  by (simp add: scanTrace.simps segment_eval)

text \<open>C4, as the code has it. For the input \<^verbatim>\<open>a \( x b\<close> and the pair \<^verbatim>\<open>\(\<close>, \<^verbatim>\<open>\)\<close> the
  segments are the text \<^verbatim>\<open>a \<close> and the text \<^verbatim>\<open>\( x b\<close>, which keeps the left delimiter:
  no math segment, and the raw fields give back the input.\<close>

theorem unmatched_left_keeps_delimiter:
  "splitAtDelimiters [TextSeg (''a '' @ backslash # ''( x b'')] (backslash # ''('') (backslash # '')'') textstyle
     = Some [TextSeg ''a '', TextSeg (backslash # ''( x b'')]
   \<and> concat (map raw [TextSeg ''a '', TextSeg (backslash # ''( x b'')]) = ''a '' @ backslash # ''( x b''"
  by (simp add: segment_eval)

text \<open>C4 as stated fails: the trailing text segment is not \<^verbatim>\<open> x b\<close>.\<close>

theorem unmatched_left_counterexample:
  "splitAtDelimiters [TextSeg (''a '' @ backslash # ''( x b'')] (backslash # ''('') (backslash # '')'') textstyle
     \<noteq> Some [TextSeg ''a '', TextSeg '' x b'']"
  by (simp add: segment_eval)

text \<open>C5, as the code has it. For a root that is not missing, the call throws to its caller,
  before any traversal, exactly when one of the two class patterns does not compile. The
  delimiter pairs play no part in it: they are not validated, and when both patterns
  compile the call does not return without a traversal.\<close>

theorem configuration_validation:
  "\<not> falsy elem \<longrightarrow>
     (renderMathInElement h elem given ltm = Some (Inl SyntaxError) \<longleftrightarrow>
        newRegExp h (ignoreClass (assignOptions defaultOptions given)) = None \<or>
        newRegExp h (processClass (assignOptions defaultOptions given)) = None)
     \<and> renderMathInElement h elem given ltm \<noteq> Some (Inr NoTraversal)"
  by (auto simp: renderMathInElement_throws_iff renderMathInElement_def Let_def
      split: option.splits)

theorem configuration_validation_witness:
  "\<not> falsy (Node exampleBody)
   \<and> newRegExp exampleHost (ignoreClass (assignOptions defaultOptions badPatternOverrides)) = None
   \<and> renderMathInElement exampleHost (Node exampleBody) badPatternOverrides echoRenderer =
       Some (Inl SyntaxError)"
  using configuration_validation[of "Node exampleBody" exampleHost badPatternOverrides echoRenderer]
  by (simp add: falsy_def exampleHost_def badPatternOverrides_def assignOptions_def literalRegExp_def)

text \<open>C5 as stated fails: with a delimiter pair whose left token is empty the call throws
  nothing, and the traversal runs and rewrites the tree.\<close>

theorem configuration_validation_counterexample:
  "renderMathInElement exampleHost (Node (ElementNode ''P'' [] [TextNode ''ab'']))
       emptyLeftOverrides echoRenderer =
     Some (Inr (Traversed (ElementNode ''P'' [] [TextNode ''ab''])
       (ElementNode ''P'' []
          [TextNode [], ElementNode ''SPAN'' [] [TextNode ''a''], TextNode [], TextNode []])))"
  by (simp add: tree_eval segment_eval)

text \<open>C6, as the code has it. The loop of \<^const>\<open>splitAtDelimiters\<close> returns for every
  text when one token of the pair is not empty; with a configuration whose pairs are all
  of that kind the traversal of any tree returns, and it is the recursive descent that
  handles every reachable child once, from left to right.\<close>

theorem traversal_terminates:
  "(leftDelim \<noteq> [] \<or> rightDelim \<noteq> [] \<longrightarrow>
      (\<exists>out. splitAtDelimiters startData leftDelim rightDelim ms = Some out))
   \<and> (properDelimiters (delimiters (TeX opts)) \<longrightarrow>
      (\<exists>r. scanElement elem opts ltm ih = Some r \<and> walkNode opts ltm ih elem = Some r))"
proof
  show "leftDelim \<noteq> [] \<or> rightDelim \<noteq> [] \<longrightarrow>
      (\<exists>out. splitAtDelimiters startData leftDelim rightDelim ms = Some out)"
    using splitAtDelimitersLoop_terminates[of leftDelim rightDelim startData ms "[]"]
    by (simp add: splitAtDelimiters_def)
  show "properDelimiters (delimiters (TeX opts)) \<longrightarrow>
      (\<exists>r. scanElement elem opts ltm ih = Some r \<and> walkNode opts ltm ih elem = Some r)"
    using scanElement_terminates[of opts elem ltm ih] by (auto simp: scan_walk)
qed

theorem traversal_terminates_witness:
  "properDelimiters (delimiters (TeX exampleOptions))
   \<and> splitAtDelimiters [TextSeg ''ab''] [] ''b'' textstyle =
       Some [TextSeg [], MathSeg ''a'' ''ab'' textstyle, TextSeg [], TextSeg []]
   \<and> scanElement exampleBody exampleOptions failingRenderer textParser =
       Some (ElementNode ''BODY'' []
               [TextNode [], TextNode ''$$x$$'', TextNode [],
                ElementNode ''PRE'' [] [TextNode ''$$y$$'']])
   \<and> walkNode exampleOptions failingRenderer textParser exampleBody =
       Some (ElementNode ''BODY'' []
               [TextNode [], TextNode ''$$x$$'', TextNode [],
                ElementNode ''PRE'' [] [TextNode ''$$y$$'']])"
proof -
  have p: "properDelimiters (delimiters (TeX exampleOptions))"
    by (simp add: tree_eval)
  have s: "scanElement exampleBody exampleOptions failingRenderer textParser =
       Some (ElementNode ''BODY'' []
               [TextNode [], TextNode ''$$x$$'', TextNode [],
                ElementNode ''PRE'' [] [TextNode ''$$y$$'']])"
    by (simp add: tree_eval segment_eval)
  have a: "splitAtDelimiters [TextSeg ''ab''] [] ''b'' textstyle =
       Some [TextSeg [], MathSeg ''a'' ''ab'' textstyle, TextSeg [], TextSeg []]"
    by (simp add: segment_eval)
  from traversal_terminates[of "[]" "''b''" "[TextSeg ''ab'']" textstyle exampleOptions exampleBody
      failingRenderer textParser] p s a
  show ?thesis by simp
qed

text \<open>C6 as stated fails: with a pair of two empty tokens the loop never leaves on the text
  \<^verbatim>\<open>a\<close>, and neither does the traversal of a tree that holds this text.\<close>

theorem traversal_terminates_counterexample:
  "splitAtDelimiters [TextSeg ''a''] [] [] textstyle = None
   \<and> renderMathInElement exampleHost (Node (ElementNode ''P'' [] [TextNode ''a'']))
        emptyPairOverrides echoRenderer = None"
proof -
  have a: "splitAtDelimiters [TextSeg ''a''] [] [] textstyle = None"
    by (simp add: splitAtDelimiters_def splitText_def indexOf_def indexOfLoop.simps slice_def
        splitLoop_diverges)
  then show ?thesis
    by (simp add: tree_eval emptyPairOverrides_def splitWithDelimiters_def)
qed



text \<open>C8. Skip and process policy: an element child is entered exactly when
  \<^verbatim>\<open>processClassPattern\<close> matches its class, or neither its tag name is in
  \<^verbatim>\<open>skipTags\<close> nor \<^verbatim>\<open>ignoreClassPattern\<close> matches its class; otherwise the child stays as
  it is, with its whole subtree. The siblings before it are kept and those after it are
  scanned next.\<close>

theorem skip_process_policy:
  "scanLoop (before @ ElementNode name cls sub # after) (length before) opts ltm ih =
     (if processClassPattern opts cls \<or>
         \<not> (toLowerCase name \<in> set (skipTags opts) \<or> ignoreClassPattern opts cls)
      then (case scanElement (ElementNode name cls sub) opts ltm ih of
              None \<Rightarrow> None
            | Some child \<Rightarrow>
                map_option (\<lambda>rest. before @ child # rest) (scanLoop after 0 opts ltm ih))
      else map_option (\<lambda>rest. before @ ElementNode name cls sub # rest)
             (scanLoop after 0 opts ltm ih))"
proof -
  have "scanLoop (before @ ElementNode name cls sub # after) (length before) opts ltm ih =
      map_option ((@) before) (scanLoop (ElementNode name cls sub # after) 0 opts ltm ih)"
    by (rule scanLoop_frame)
  then show ?thesis
    by (simp add: scanLoop_Element shouldRender_def option.map_comp comp_def split: option.splits)
qed

theorem skip_process_policy_witness:
  "toLowerCase ''PRE'' \<in> set (skipTags exampleOptions)
   \<and> processClassPattern exampleOptions ''tex2jax_process''
   \<and> scanLoop [ElementNode ''PRE'' ''tex2jax_process'' [TextNode ''$$y$$'']] 0
        exampleOptions echoRenderer textParser =
       Some [ElementNode ''PRE'' ''tex2jax_process''
               [TextNode [], ElementNode ''SPAN'' [] [TextNode ''y''], TextNode []]]
   \<and> scanLoop [ElementNode ''PRE'' [] [TextNode ''$$y$$'']] 0
        exampleOptions echoRenderer textParser =
       Some [ElementNode ''PRE'' [] [TextNode ''$$y$$'']]"
  using skip_process_policy[of "[]" "''PRE''" "''tex2jax_process''" "[TextNode ''$$y$$'']" "[]"
      exampleOptions echoRenderer textParser]
    skip_process_policy[of "[]" "''PRE''" "[]" "[TextNode ''$$y$$'']" "[]"
      exampleOptions echoRenderer textParser]
  by (simp add: tree_eval segment_eval)

text \<open>C9. Spliced output is not scanned again: after a text child has given way to its
  fragment, the loop goes on at the index just behind the fragment, where the later
  original siblings start; the earlier nodes and the fragment come out as they are, and
  the later siblings are scanned in order.\<close>

theorem spliced_output_not_rescanned:
  "scanText t opts ltm ih = Some frag \<longrightarrow>
     scanLoop (before @ TextNode t # after) (length before) opts ltm ih =
       scanLoop (before @ frag @ after) (length before + length frag) opts ltm ih
     \<and> drop (length before + length frag) (before @ frag @ after) = after
     \<and> scanLoop (before @ frag @ after) (length before + length frag) opts ltm ih =
         map_option (\<lambda>rest. before @ frag @ rest) (scanLoop after 0 opts ltm ih)"
proof
  assume f: "scanText t opts ltm ih = Some frag"
  have one: "scanLoop (before @ TextNode t # after) (length before) opts ltm ih =
       scanLoop (before @ frag @ after) (length before + length frag) opts ltm ih"
    using f by (simp add: scanLoop.simps[of "before @ TextNode t # after" "length before"] nat_int_add)
  have two: "drop (length before + length frag) (before @ frag @ after) = after"
    by simp
  have three: "scanLoop (before @ frag @ after) (length before + length frag) opts ltm ih =
         map_option (\<lambda>rest. before @ frag @ rest) (scanLoop after 0 opts ltm ih)"
  proof -
    have "(@) (before @ frag) = (\<lambda>rest. before @ frag @ rest)" by (rule ext) simp
    then show ?thesis using scanLoop_frame[of "before @ frag" after opts ltm ih] by simp
  qed
  from one two three
  show "scanLoop (before @ TextNode t # after) (length before) opts ltm ih =
       scanLoop (before @ frag @ after) (length before + length frag) opts ltm ih
     \<and> drop (length before + length frag) (before @ frag @ after) = after
     \<and> scanLoop (before @ frag @ after) (length before + length frag) opts ltm ih =
         map_option (\<lambda>rest. before @ frag @ rest) (scanLoop after 0 opts ltm ih)"
    by blast
qed

theorem spliced_output_not_rescanned_witness:
  "scanText ''$$ x $$'' exampleOptions failingRenderer textParser =
     Some [TextNode [], TextNode ''$$ x $$'', TextNode []]
   \<and> scanLoop [OtherNode 8, TextNode ''$$ x $$'', TextNode ''$$y$$''] 1
        exampleOptions failingRenderer textParser =
      scanLoop [OtherNode 8, TextNode [], TextNode ''$$ x $$'', TextNode [], TextNode ''$$y$$''] 4
        exampleOptions failingRenderer textParser
   \<and> scanLoop [OtherNode 8, TextNode ''$$ x $$'', TextNode ''$$y$$''] 1
        exampleOptions failingRenderer textParser =
      Some [OtherNode 8, TextNode [], TextNode ''$$ x $$'', TextNode [],
            TextNode [], TextNode ''$$y$$'', TextNode []]"
  using spliced_output_not_rescanned[of "''$$ x $$''" exampleOptions failingRenderer textParser
      "[TextNode [], TextNode ''$$ x $$'', TextNode []]" "[OtherNode 8]" "[TextNode ''$$y$$'']"]
  by (simp add: tree_eval segment_eval)

text \<open>C10. In the environment branch the span is appended before the renderer is called:
  when the renderer fails, the fragment is an empty span followed by a text node with the
  whole text.\<close>

theorem environment_failure_leaves_empty_span:
  assumes "processEnvironments (TeX opts)" and "matchBegin t" and "latexToMarkup t displaystyle = None"
  shows "scanText t opts latexToMarkup innerHTML = Some [ElementNode ''SPAN'' [] [], TextNode t]"
  using assms by (simp add: scanText_def createSpan_def Let_def)

theorem environment_failure_leaves_empty_span_witness:
  "processEnvironments (TeX exampleOptions)
   \<and> matchBegin ('' '' @ backslash # ''begin{x}'')
   \<and> failingRenderer ('' '' @ backslash # ''begin{x}'') displaystyle = None
   \<and> scanText ('' '' @ backslash # ''begin{x}'') exampleOptions failingRenderer textParser =
       Some [ElementNode ''SPAN'' [] [], TextNode ('' '' @ backslash # ''begin{x}'')]"
  using environment_failure_leaves_empty_span[of exampleOptions "'' '' @ backslash # ''begin{x}''"
      failingRenderer textParser]
  by (simp add: tree_eval)

end
